theory Spec2Isabelle
  imports Complex_Main "HOL-Library.AList" "HOL-Library.Sublist"
begin

section \<open>RegionPersistentCounter (OCR\_suitcase.py)\<close>

text \<open>
  The class keeps three pieces of bookkeeping: the dictionary \<open>yolo_id_to_custom_id\<close>
  (tracker id to stable id), the counter \<open>next_custom_id\<close> and the dictionary
  \<open>object_region_assignments\<close> (stable id to region 1 or 2). A Python dictionary keeps
  its keys in insertion order and \<open>d[k] = v\<close> overwrites in place or appends, which is
  what \<open>AList.update\<close> does on an association list; lookup is \<open>map_of\<close>.

  Opening the video, loading the model, decoding, drawing and printing have no effect
  on this bookkeeping and are left out, and with them \<open>frame_count\<close>, which only
  selects what is printed. The detector is outside the class: a frame is represented by
  what \<open>model.track\<close> returned for it. The polygon test \<open>Polygon.contains\<close> belongs to the
  geometry library, so it is a parameter \<open>contains\<close> of every function that needs it,
  and the polygon type is a type variable.

  The entries of a box are 64-bit integers (\<open>astype(int)\<close>), given here by their values.
  A corner is passed to the geometry library as it is. A midpoint is computed as
  \<open>(x1 + x2) / 2\<close>: the sum is a 64-bit sum and wraps, and the true division first
  converts it to double precision and then halves it, which is exact. Points therefore
  have rational coordinates.
\<close>

subsection \<open>Data\<close>

type_synonym point = "rat \<times> rat"

datatype error = AttributeError | ConversionError | ValueError | KeyError

text \<open>
  An attribute of the tracker's \<open>boxes\<close> object, as the code probes it: missing or
  \<open>None\<close> (\<open>hasattr(...) and ... is not None\<close> fails), present but not convertible by
  \<open>.cpu().numpy().astype(int)\<close>, or convertible to an integer array.
\<close>

datatype 'a field = Absent | Malformed | Array 'a

record boxes =
  boxes_len :: nat
  xyxy :: "int list list field"
  cls :: "int list field"
  boxes_id :: "int list field"

text \<open>\<open>results\<close> is the list returned by \<open>model.track\<close>; each entry carries its \<open>boxes\<close>
  attribute, which may be \<open>None\<close>.\<close>

type_synonym results = "boxes option list"

text \<open>
  The fields of the class that the frame loop reads and writes. \<open>region_tests\<close> is not a
  field of the class: it records every call of \<open>is_in_region\<close> made from the frame loop
  as (stable id, point, region number), in call order, so that statements about which
  membership tests are carried out can be made.
\<close>

record 'p counter =
  region_polygon1 :: 'p
  region_polygon2 :: 'p
  yolo_id_to_custom_id :: "(int \<times> int) list"
  next_custom_id :: int
  object_region_assignments :: "(int \<times> int) list"
  class_counts :: "(int \<times> int) list"
  region_tests :: "(int \<times> point \<times> int) list"

text \<open>
  Where control leaves a piece of code: normally, or by an exception. Python mutates the
  object in place, so the state reached when the exception was raised is kept.
\<close>

datatype 's outcome = Returned 's | Raised error 's

fun state_of :: "'s outcome \<Rightarrow> 's" where
  "state_of (Returned s) = s"
| "state_of (Raised e s) = s"

subsection \<open>Construction\<close>

definition init :: "'p \<Rightarrow> 'p \<Rightarrow> 'p counter" where
  "init region1 region2 =
     \<lparr>region_polygon1 = region1, region_polygon2 = region2,
      yolo_id_to_custom_id = [], next_custom_id = 1,
      object_region_assignments = [], class_counts = [], region_tests = []\<rparr>"

subsection \<open>Region membership and the candidate points\<close>

definition is_in_region :: "('p \<Rightarrow> point \<Rightarrow> bool) \<Rightarrow> point \<Rightarrow> 'p \<Rightarrow> bool" where
  "is_in_region contains point_xy region_polygon = contains region_polygon point_xy"

text \<open>The value of a 64-bit signed sum: it wraps around at \<open>2 ^ 63\<close>.\<close>

definition wrap64 :: "int \<Rightarrow> int" where
  "wrap64 n = (n + 2 ^ 63) mod 2 ^ 64 - 2 ^ 63"

text \<open>
  The double nearest to a 64-bit integer, ties to the even significand. A double has 53
  significant bits: \<open>e\<close> is the number of low bits that do not fit (0 below \<open>2 ^ 53\<close>, at
  most 11 for a 64-bit value), \<open>q\<close> the bits kept and \<open>r\<close> the bits dropped. The result is
  an integer again.
\<close>

definition int64_to_float64 :: "int \<Rightarrow> int" where
  "int64_to_float64 n =
     (let a = \<bar>n\<bar>;
          e = length (takeWhile (\<lambda>k. 2 ^ 53 \<le> a div 2 ^ k) [0..<11]);
          q = a div 2 ^ e;
          r = a mod 2 ^ e;
          q' = (if 2 ^ e < 2 * r \<or> (2 * r = 2 ^ e \<and> odd q) then q + 1 else q)
      in sgn n * (q' * 2 ^ e))"

text \<open>\<open>(a + b) / 2\<close> on two 64-bit integers.\<close>

definition midpoint :: "int \<Rightarrow> int \<Rightarrow> rat" where
  "midpoint a b = of_int (int64_to_float64 (wrap64 (a + b))) / 2"

definition check_points :: "int \<Rightarrow> int \<Rightarrow> int \<Rightarrow> int \<Rightarrow> point list" where
  "check_points x1 y1 x2 y2 =
     [(of_int x2, of_int y1),
      (of_int x1, of_int y2),
      (of_int x2, of_int y2),
      (midpoint x1 x2, of_int y2),
      (of_int x1, midpoint y1 y2),
      (of_int x2, midpoint y1 y2)]"

text \<open>
  The loop over \<open>check_points\<close> with its two \<open>break\<close>s. The result is \<open>in_r1\<close>, \<open>in_r2\<close>
  and the membership tests that were evaluated, as (point, region number).
\<close>

fun region_scan ::
  "('p \<Rightarrow> point \<Rightarrow> bool) \<Rightarrow> 'p \<Rightarrow> 'p \<Rightarrow> point list \<Rightarrow> bool \<times> bool \<times> (point \<times> int) list" where
  "region_scan contains r1 r2 [] = (False, False, [])"
| "region_scan contains r1 r2 (cp # cps) =
     (if is_in_region contains cp r1 then (True, False, [(cp, 1)])
      else if is_in_region contains cp r2 then (False, True, [(cp, 1), (cp, 2)])
      else (case region_scan contains r1 r2 cps of
              (in_r1, in_r2, tests) \<Rightarrow> (in_r1, in_r2, (cp, 1) # (cp, 2) # tests)))"

text \<open>The tests that the loop evaluates for points lying in neither region: both regions
  for each point, region 1 first.\<close>

definition missed_tests :: "point list \<Rightarrow> (point \<times> int) list" where
  "missed_tests ps = concat (map (\<lambda>p. [(p, 1), (p, 2)]) ps)"

subsection \<open>Identity mapping\<close>

text \<open>Lines 145 to 147: a tracker id seen for the first time gets the next stable id.\<close>

definition register_id :: "'p counter \<Rightarrow> int \<Rightarrow> 'p counter" where
  "register_id st yolo_id =
     (if map_of (yolo_id_to_custom_id st) yolo_id = None
      then st\<lparr>yolo_id_to_custom_id :=
                 AList.update yolo_id (next_custom_id st) (yolo_id_to_custom_id st),
               next_custom_id := next_custom_id st + 1\<rparr>
      else st)"

text \<open>Line 148: the dictionary lookup; \<open>None\<close> stands for the \<open>KeyError\<close>.\<close>

definition custom_id :: "'p counter \<Rightarrow> int \<Rightarrow> int option" where
  "custom_id st yolo_id = map_of (yolo_id_to_custom_id st) yolo_id"

subsection \<open>One detection\<close>

definition assign_region :: "'p counter \<Rightarrow> int \<Rightarrow> (point \<times> int) list \<Rightarrow> bool \<Rightarrow> bool \<Rightarrow> 'p counter" where
  "assign_region st unique_id tests in_r1 in_r2 =
     (let st' = st\<lparr>region_tests :=
                     region_tests st @ map (\<lambda>(cp, r). (unique_id, cp, r)) tests\<rparr>
      in if in_r1
         then st'\<lparr>object_region_assignments :=
                    AList.update unique_id 1 (object_region_assignments st')\<rparr>
         else if in_r2
         then st'\<lparr>object_region_assignments :=
                    AList.update unique_id 2 (object_region_assignments st')\<rparr>
         else st')"

text \<open>
  The body of the loop over \<open>zip(boxes, classes, track_ids)\<close>. The unpacking
  \<open>x1, y1, x2, y2 = box\<close> raises unless the row has four entries.
\<close>

definition process_detection ::
  "('p \<Rightarrow> point \<Rightarrow> bool) \<Rightarrow> 'p counter \<Rightarrow> int list \<times> int \<times> int \<Rightarrow> 'p counter outcome" where
  "process_detection contains st d =
     (case d of (box, cls_val, yolo_id) \<Rightarrow>
        if cls_val = 28 then
          (case box of
             [x1, y1, x2, y2] \<Rightarrow>
               (let st1 = register_id st yolo_id in
                case custom_id st1 yolo_id of
                  None \<Rightarrow> Raised KeyError st1
                | Some unique_id \<Rightarrow>
                    if map_of (object_region_assignments st1) unique_id \<noteq> None
                    then Returned st1
                    else
                      (case region_scan contains (region_polygon1 st1) (region_polygon2 st1)
                              (check_points x1 y1 x2 y2) of
                         (in_r1, in_r2, tests) \<Rightarrow>
                           Returned (assign_region st1 unique_id tests in_r1 in_r2)))
           | _ \<Rightarrow> Raised ValueError st)
        else Returned st)"

fun detection_loop ::
  "('p \<Rightarrow> point \<Rightarrow> bool) \<Rightarrow> 'p counter \<Rightarrow> (int list \<times> int \<times> int) list \<Rightarrow> 'p counter outcome" where
  "detection_loop contains st [] = Returned st"
| "detection_loop contains st (d # ds) =
     (case process_detection contains st d of
        Raised e st' \<Rightarrow> Raised e st'
      | Returned st' \<Rightarrow> detection_loop contains st' ds)"

subsection \<open>One frame\<close>

text \<open>\<open>.cpu().numpy().astype(int)\<close> on an attribute.\<close>

definition to_int_array :: "'a field \<Rightarrow> error + 'a" where
  "to_int_array f =
     (case f of Absent \<Rightarrow> Inl AttributeError
      | Malformed \<Rightarrow> Inl ConversionError
      | Array a \<Rightarrow> Inr a)"

definition bump :: "(int \<times> int) list \<Rightarrow> int \<Rightarrow> (int \<times> int) list" where
  "bump counts c =
     AList.update c ((case map_of counts c of None \<Rightarrow> 0 | Some n \<Rightarrow> n) + 1) counts"

text \<open>Lines 123 to 126, the class statistics; they come before the \<open>try\<close>.\<close>

definition count_classes :: "'p counter \<Rightarrow> boxes \<Rightarrow> 'p counter outcome" where
  "count_classes st b =
     (if cls b \<noteq> Absent then
        (case to_int_array (cls b) of
           Inl e \<Rightarrow> Raised e st
         | Inr classes_this_frame \<Rightarrow>
             Returned (st\<lparr>class_counts := foldl bump (class_counts st) classes_this_frame\<rparr>))
      else Returned st)"

text \<open>Lines 135 to 242, the body of the \<open>try\<close>.\<close>

definition try_body ::
  "('p \<Rightarrow> point \<Rightarrow> bool) \<Rightarrow> 'p counter \<Rightarrow> boxes \<Rightarrow> 'p counter outcome" where
  "try_body contains st b =
     (case to_int_array (xyxy b) of
        Inl e \<Rightarrow> Raised e st
      | Inr bxs \<Rightarrow>
          (case to_int_array (cls b) of
             Inl e \<Rightarrow> Raised e st
           | Inr classes \<Rightarrow>
               (case to_int_array (boxes_id b) of
                  Inl e \<Rightarrow> Raised e st
                | Inr track_ids \<Rightarrow>
                    detection_loop contains st (zip bxs (zip classes track_ids)))))"

text \<open>
  \<open>process_frame\<close>: the guard of line 121, the class statistics, the guard of line 133
  and the \<open>try\<close> whose handler prints and goes on.
\<close>

definition process_frame ::
  "('p \<Rightarrow> point \<Rightarrow> bool) \<Rightarrow> 'p counter \<Rightarrow> results \<Rightarrow> 'p counter outcome" where
  "process_frame contains st res =
     (case res of
        [] \<Rightarrow> Returned st
      | r # _ \<Rightarrow>
          (case r of
             None \<Rightarrow> Returned st
           | Some b \<Rightarrow>
               if boxes_len b > 0 then
                 (case count_classes st b of
                    Raised e st' \<Rightarrow> Raised e st'
                  | Returned st1 \<Rightarrow>
                      if boxes_id b \<noteq> Absent
                      then Returned (state_of (try_body contains st1 b))
                      else Returned st1)
               else Returned st))"

subsection \<open>The run and the counts\<close>

text \<open>
  \<open>process_video\<close> calls \<open>process_frame\<close> for each frame read; it has no handler, so an
  exception leaving \<open>process_frame\<close> ends the run.
\<close>

fun process_video ::
  "('p \<Rightarrow> point \<Rightarrow> bool) \<Rightarrow> 'p counter \<Rightarrow> results list \<Rightarrow> 'p counter outcome" where
  "process_video contains st [] = Returned st"
| "process_video contains st (res # rest) =
     (case process_frame contains st res of
        Raised e st' \<Rightarrow> Raised e st'
      | Returned st' \<Rightarrow> process_video contains st' rest)"

definition region1_count :: "'p counter \<Rightarrow> int" where
  "region1_count st = (\<Sum>r\<leftarrow>filter (\<lambda>r. r = 1) (map snd (object_region_assignments st)). 1)"

definition region2_count :: "'p counter \<Rightarrow> int" where
  "region2_count st = (\<Sum>r\<leftarrow>filter (\<lambda>r. r = 2) (map snd (object_region_assignments st)). 1)"

definition total_count :: "'p counter \<Rightarrow> int" where
  "total_count st = region1_count st + region2_count st"

subsection \<open>Axis-parallel rectangles, for the worked examples\<close>

text \<open>A region given by two opposite corners; a point is inside when it lies strictly
  between them in both coordinates.\<close>

datatype rect = Rect rat rat rat rat

fun rect_contains :: "rect \<Rightarrow> point \<Rightarrow> bool" where
  "rect_contains (Rect xa ya xb yb) (x, y) = (xa < x \<and> x < xb \<and> ya < y \<and> y < yb)"

subsection \<open>The tracker ids that a run resolves\<close>

text \<open>
  What the claim about the order of issue speaks of: the tracker ids that reach the
  identity mapping of lines 145 to 148, in the order in which they reach it. This is
  read off the frames alone. In the loop these are the tracker ids of the class-28
  detections, up to the first one whose box does not unpack (the exception ends the
  loop).
\<close>

fun resolved_in_loop :: "(int list \<times> int \<times> int) list \<Rightarrow> int list" where
  "resolved_in_loop [] = []"
| "resolved_in_loop ((box, cls_val, yolo_id) # ds) =
     (if cls_val = 28
      then (if length box = 4 then yolo_id # resolved_in_loop ds else [])
      else resolved_in_loop ds)"

text \<open>A frame reaches the loop when the guards of lines 121 and 133 pass and the three
  arrays convert.\<close>

definition resolved_in_frame :: "results \<Rightarrow> int list" where
  "resolved_in_frame res =
     (case res of
        Some b # _ \<Rightarrow>
          if 0 < boxes_len b then
            (case xyxy b of
               Array bxs \<Rightarrow>
                 (case cls b of
                    Array classes \<Rightarrow>
                      (case boxes_id b of
                         Array track_ids \<Rightarrow> resolved_in_loop (zip bxs (zip classes track_ids))
                       | _ \<Rightarrow> [])
                  | _ \<Rightarrow> [])
             | _ \<Rightarrow> [])
          else []
      | _ \<Rightarrow> [])"

text \<open>A frame ends the run when the class statistics of line 124 raise.\<close>

definition frame_aborts :: "results \<Rightarrow> bool" where
  "frame_aborts res =
     (case res of Some b # _ \<Rightarrow> 0 < boxes_len b \<and> cls b = Malformed | _ \<Rightarrow> False)"

fun resolved_in_run :: "results list \<Rightarrow> int list" where
  "resolved_in_run [] = []"
| "resolved_in_run (res # rest) =
     (if frame_aborts res then [] else resolved_in_frame res @ resolved_in_run rest)"

text \<open>The distinct tracker ids of a list, in the order of their first occurrence.\<close>

fun note_ids :: "int list \<Rightarrow> int list \<Rightarrow> int list" where
  "note_ids seen [] = seen"
| "note_ids seen (y # ys) = note_ids (if y \<in> set seen then seen else seen @ [y]) ys"

definition first_seen :: "int list \<Rightarrow> int list" where
  "first_seen ys = note_ids [] ys"

subsection \<open>How a state evolves\<close>

text \<open>
  \<open>extends st st'\<close>: the polygons are the same, both dictionaries and the record of
  membership tests have only grown at the end, the counter has not decreased, and no
  membership test has been added for a stable id that already had a region in \<open>st\<close>.
\<close>

definition extends :: "'p counter \<Rightarrow> 'p counter \<Rightarrow> bool" where
  "extends st st' \<longleftrightarrow>
     region_polygon1 st' = region_polygon1 st \<and>
     region_polygon2 st' = region_polygon2 st \<and>
     prefix (yolo_id_to_custom_id st) (yolo_id_to_custom_id st') \<and>
     next_custom_id st \<le> next_custom_id st' \<and>
     prefix (object_region_assignments st) (object_region_assignments st') \<and>
     prefix (region_tests st) (region_tests st') \<and>
     (\<forall>u. map_of (object_region_assignments st) u \<noteq> None \<longrightarrow>
          filter (\<lambda>t. fst t = u) (region_tests st') = filter (\<lambda>t. fst t = u) (region_tests st))"

text \<open>
  \<open>wf st\<close>: the stable ids handed out so far are \<open>1, ..., next_custom_id - 1\<close> in the order
  of their issue, every tracker id and every stable id occurs once as a key, and every
  recorded region is 1 or 2.
\<close>

definition wf :: "'p counter \<Rightarrow> bool" where
  "wf st \<longleftrightarrow>
     1 \<le> next_custom_id st \<and>
     map snd (yolo_id_to_custom_id st) = [1..next_custom_id st - 1] \<and>
     distinct (map fst (yolo_id_to_custom_id st)) \<and>
     distinct (map fst (object_region_assignments st)) \<and>
     set (map snd (object_region_assignments st)) \<subseteq> {1, 2}"

subsection \<open>Inputs of the worked examples\<close>

text \<open>Rectangles used as regions, frames as the tracker would return them, and the
  states that some of the runs below reach.\<close>

definition region_a :: rect where "region_a = Rect 150 150 250 250"
definition region_b :: rect where "region_b = Rect 300 300 400 400"

definition frame_enter :: results where
  "frame_enter = [Some \<lparr>boxes_len = 1, xyxy = Array [[100, 100, 200, 200]],
                         cls = Array [28], boxes_id = Array [7]\<rparr>]"

definition frame_moved :: results where
  "frame_moved = [Some \<lparr>boxes_len = 1, xyxy = Array [[310, 310, 390, 390]],
                         cls = Array [28], boxes_id = Array [7]\<rparr>]"

definition after_enter :: "rect counter" where
  "after_enter =
     \<lparr>region_polygon1 = region_a, region_polygon2 = region_b,
      yolo_id_to_custom_id = [(7, 1)], next_custom_id = 2,
      object_region_assignments = [(1, 1)], class_counts = [(28, 1)],
      region_tests = [(1, (200, 100), 1), (1, (200, 100), 2), (1, (100, 200), 1),
                      (1, (100, 200), 2), (1, (200, 200), 1)]\<rparr>"

definition region_c :: rect where "region_c = Rect 90 140 110 160"
definition region_d :: rect where "region_d = Rect 140 190 160 210"
definition region_e :: rect where "region_e = Rect 90 190 210 210"
definition region_f :: rect where "region_f = Rect 90 90 210 210"
definition region_g :: rect where "region_g = Rect 190 190 210 210"
definition region_h :: rect where "region_h = Rect 180 180 220 220"

definition frame_two :: results where
  "frame_two = [Some \<lparr>boxes_len = 2, xyxy = Array [[310, 310, 390, 390], [0, 0, 10, 10]],
                       cls = Array [28, 28], boxes_id = Array [7, 9]\<rparr>]"

definition frame_other :: boxes where
  "frame_other = \<lparr>boxes_len = 2, xyxy = Array [[100, 100, 200, 200], [160, 160, 240, 240]],
                   cls = Array [0, 24], boxes_id = Array [3, 4]\<rparr>"

definition frame_bad_cls :: results where
  "frame_bad_cls = [Some \<lparr>boxes_len = 1, xyxy = Array [[100, 100, 200, 200]],
                           cls = Malformed, boxes_id = Array [7]\<rparr>]"

definition frame_bad_box :: boxes where
  "frame_bad_box = \<lparr>boxes_len = 2, xyxy = Array [[100, 100, 200, 200], [5, 6, 7]],
                     cls = Array [28, 28], boxes_id = Array [7, 8]\<rparr>"

definition after_bad_box :: "rect counter" where
  "after_bad_box =
     \<lparr>region_polygon1 = region_a, region_polygon2 = region_b,
      yolo_id_to_custom_id = [(7, 1)], next_custom_id = 2,
      object_region_assignments = [(1, 1)], class_counts = [(28, 2)],
      region_tests = [(1, (200, 100), 1), (1, (200, 100), 2), (1, (100, 200), 1),
                      (1, (100, 200), 2), (1, (200, 200), 1)]\<rparr>"

definition frame_three :: results where
  "frame_three = [Some \<lparr>boxes_len = 3,
                         xyxy = Array [[0, 0, 10, 10], [20, 20, 30, 30], [40, 40, 50, 50]],
                         cls = Array [28, 0, 28], boxes_id = Array [9, 5, 7]\<rparr>]"

section \<open>Auxiliary facts\<close>

lemma int64_small:
  assumes "\<bar>s\<bar> < 2 ^ 53"
  shows "int64_to_float64 (wrap64 s) = s"
proof -
  from assms have "0 \<le> s + 2 ^ 63" "s + 2 ^ 63 < 2 ^ 64" by auto
  then have w: "wrap64 s = s" by (simp add: wrap64_def)
  have "[0..<11] = 0 # [1..<11]" by (simp add: upt_rec)
  with assms have "takeWhile (\<lambda>k. 2 ^ 53 \<le> \<bar>s\<bar> div 2 ^ k) [0..<11] = []" by simp
  with w show ?thesis by (simp add: int64_to_float64_def Let_def sgn_mult_abs)
qed

lemma midpoint_exact: "\<bar>a + b\<bar> < 2 ^ 53 \<Longrightarrow> midpoint a b = of_int (a + b) / 2"
  by (simp add: midpoint_def int64_small)

lemma midpoint_wraps: "midpoint (2 ^ 62) (2 ^ 62) = - (2 ^ 62)"
  by code_simp

lemma midpoint_rounds: "midpoint (2 ^ 53) 1 = 2 ^ 52"
  by code_simp

lemma check_points_exact:
  assumes "\<bar>x1 + x2\<bar> < 2 ^ 53" and "\<bar>y1 + y2\<bar> < 2 ^ 53"
  shows "check_points x1 y1 x2 y2 =
           [(of_int x2, of_int y1), (of_int x1, of_int y2), (of_int x2, of_int y2),
            (of_int (x1 + x2) / 2, of_int y2), (of_int x1, of_int (y1 + y2) / 2),
            (of_int x2, of_int (y1 + y2) / 2)]"
  using assms by (simp add: check_points_def midpoint_exact)

lemma check_points_box:
  "check_points 100 100 200 200 =
     [(200, 100), (100, 200), (200, 200), (150, 200), (100, 150), (200, 150)]"
  by (simp add: check_points_exact)

lemma update_fresh: "map_of al k = None \<Longrightarrow> AList.update k v al = al @ [(k, v)]"
  by (induction al) (auto split: if_splits)

lemma map_of_prefix:
  "prefix al al' \<Longrightarrow> map_of al k = Some v \<Longrightarrow> map_of al' k = Some v"
  by (auto simp: prefix_def)

lemma extends_refl: "extends st st"
  by (simp add: extends_def)

lemma extends_trans:
  assumes "extends a b" and "extends b c"
  shows "extends a c"
proof -
  have frozen: "filter (\<lambda>t. fst t = u) (region_tests c) = filter (\<lambda>t. fst t = u) (region_tests a)"
    if u: "map_of (object_region_assignments a) u \<noteq> None" for u
  proof -
    from u obtain r where "map_of (object_region_assignments a) u = Some r" by auto
    with assms(1) have "map_of (object_region_assignments b) u = Some r"
      unfolding extends_def by (blast intro: map_of_prefix)
    with assms u show ?thesis unfolding extends_def by simp
  qed
  from assms show ?thesis
    unfolding extends_def using frozen by (auto intro: prefix_order.trans)
qed

lemma register_id_extends: "extends st (register_id st yolo_id)"
  by (simp add: extends_def register_id_def update_fresh)

lemma register_id_custom_id: "\<exists>u. custom_id (register_id st yolo_id) yolo_id = Some u"
  by (auto simp: custom_id_def register_id_def AList.update_conv')

lemma filter_tagged:
  "u' \<noteq> u \<Longrightarrow> filter (\<lambda>t. fst t = u') (map (\<lambda>(cp, r). (u, cp, r)) tests) = []"
  by (induction tests) auto

lemma assign_region_extends:
  assumes "map_of (object_region_assignments st) u = None"
  shows "extends st (assign_region st u tests in_r1 in_r2)"
proof -
  have "filter (\<lambda>t. fst t = u') (map (\<lambda>(cp, r). (u, cp, r)) tests) = []"
    if "map_of (object_region_assignments st) u' \<noteq> None" for u'
    using that assms by (intro filter_tagged) auto
  with assms show ?thesis
    by (simp add: extends_def assign_region_def Let_def update_fresh)
qed

lemma process_detection_extends: "extends st (state_of (process_detection contains st d))"
proof -
  obtain box cls_val yolo_id where d: "d = (box, cls_val, yolo_id)" by (cases d)
  let ?st1 = "register_id st yolo_id"
  have 1: "extends st ?st1" by (rule register_id_extends)
  show ?thesis
  proof (cases "cls_val = 28 \<and> length box = 4")
    case False
    then show ?thesis
      by (auto simp: d process_detection_def extends_refl split: list.splits)
  next
    case True
    then obtain x1 y1 x2 y2 where box: "box = [x1, y1, x2, y2]"
      by (auto simp: length_Suc_conv numeral_eq_Suc)
    obtain u where u: "custom_id ?st1 yolo_id = Some u"
      using register_id_custom_id by blast
    show ?thesis
    proof (cases "map_of (object_region_assignments ?st1) u = None")
      case False
      with True u 1 show ?thesis
        by (simp add: d box process_detection_def Let_def)
    next
      case un: True
      obtain a b ts where sc: "region_scan contains (region_polygon1 ?st1) (region_polygon2 ?st1)
                              (check_points x1 y1 x2 y2) = (a, b, ts)"
        by (cases "region_scan contains (region_polygon1 ?st1) (region_polygon2 ?st1)
                              (check_points x1 y1 x2 y2)") auto
      have "extends ?st1 (assign_region ?st1 u ts a b)"
        using un by (rule assign_region_extends)
      with 1 have "extends st (assign_region ?st1 u ts a b)" by (rule extends_trans)
      with True u un sc show ?thesis
        by (simp add: d box process_detection_def Let_def)
    qed
  qed
qed

lemma detection_loop_extends: "extends st (state_of (detection_loop contains st ds))"
proof (induction ds arbitrary: st)
  case Nil
  show ?case by (simp add: extends_refl)
next
  case (Cons d ds)
  show ?case
  proof (cases "process_detection contains st d")
    case (Returned st')
    with process_detection_extends [of st contains d] have "extends st st'" by simp
    with Cons [of st'] Returned show ?thesis by (auto intro: extends_trans)
  next
    case (Raised e st')
    with process_detection_extends [of st contains d] show ?thesis by simp
  qed
qed

lemma try_body_extends: "extends st (state_of (try_body contains st b))"
  by (auto simp: try_body_def extends_refl detection_loop_extends split: sum.splits)

lemma count_classes_extends: "extends st (state_of (count_classes st b))"
  by (auto simp: count_classes_def extends_def split: sum.splits)

lemma process_frame_extends: "extends st (state_of (process_frame contains st res))"
proof (cases res)
  case Nil
  then show ?thesis by (simp add: process_frame_def extends_refl)
next
  case (Cons r more)
  show ?thesis
  proof (cases r)
    case None
    with Cons show ?thesis by (simp add: process_frame_def extends_refl)
  next
    case (Some b)
    show ?thesis
    proof (cases "count_classes st b")
      case (Raised e st')
      with count_classes_extends [of st b] Cons Some show ?thesis
        by (simp add: process_frame_def extends_refl)
    next
      case (Returned st1)
      with count_classes_extends [of st b] have "extends st st1" by simp
      moreover have "extends st1 (state_of (try_body contains st1 b))"
        by (rule try_body_extends)
      ultimately have "extends st (state_of (try_body contains st1 b))"
        by (rule extends_trans)
      with \<open>extends st st1\<close> Returned Cons Some show ?thesis
        by (simp add: process_frame_def extends_refl)
    qed
  qed
qed

lemma process_video_extends: "extends st (state_of (process_video contains st frames))"
proof (induction frames arbitrary: st)
  case Nil
  show ?case by (simp add: extends_refl)
next
  case (Cons res rest)
  show ?case
  proof (cases "process_frame contains st res")
    case (Returned st')
    with process_frame_extends [of st contains res] have "extends st st'" by simp
    with Cons [of st'] Returned show ?thesis by (auto intro: extends_trans)
  next
    case (Raised e st')
    with process_frame_extends [of st contains res] show ?thesis by simp
  qed
qed


lemma wf_init: "wf (init region1 region2)"
  by (simp add: wf_def init_def)

lemma upto_snoc: "(1::int) \<le> n \<Longrightarrow> [1..n - 1] @ [n] = [1..n]"
  using upto_rec2 [of 1 n] by simp

lemma register_id_wf: "wf st \<Longrightarrow> wf (register_id st yolo_id)"
  by (auto simp: wf_def register_id_def update_fresh upto_snoc AList.distinct_update)

lemma assign_region_wf:
  "wf st \<Longrightarrow> map_of (object_region_assignments st) u = None \<Longrightarrow>
     wf (assign_region st u tests in_r1 in_r2)"
  by (auto simp: wf_def assign_region_def Let_def update_fresh map_of_eq_None_iff)

lemma process_detection_wf:
  assumes "wf st"
  shows "wf (state_of (process_detection contains st d))"
proof -
  obtain box cls_val yolo_id where d: "d = (box, cls_val, yolo_id)" by (cases d)
  let ?st1 = "register_id st yolo_id"
  have 1: "wf ?st1" using assms by (rule register_id_wf)
  show ?thesis
  proof (cases "cls_val = 28 \<and> length box = 4")
    case False
    with assms show ?thesis
      by (auto simp: d process_detection_def split: list.splits)
  next
    case True
    then obtain x1 y1 x2 y2 where box: "box = [x1, y1, x2, y2]"
      by (auto simp: length_Suc_conv numeral_eq_Suc)
    obtain u where u: "custom_id ?st1 yolo_id = Some u"
      using register_id_custom_id by blast
    show ?thesis
    proof (cases "map_of (object_region_assignments ?st1) u = None")
      case False
      with True u 1 show ?thesis
        by (simp add: d box process_detection_def Let_def)
    next
      case un: True
      obtain a b ts where sc: "region_scan contains (region_polygon1 ?st1) (region_polygon2 ?st1)
                              (check_points x1 y1 x2 y2) = (a, b, ts)"
        by (cases "region_scan contains (region_polygon1 ?st1) (region_polygon2 ?st1)
                              (check_points x1 y1 x2 y2)") auto
      have "wf (assign_region ?st1 u ts a b)"
        using 1 un by (rule assign_region_wf)
      with True u un sc show ?thesis
        by (simp add: d box process_detection_def Let_def)
    qed
  qed
qed

lemma detection_loop_wf: "wf st \<Longrightarrow> wf (state_of (detection_loop contains st ds))"
proof (induction ds arbitrary: st)
  case Nil
  then show ?case by simp
next
  case (Cons d ds)
  from Cons.prems have "wf (state_of (process_detection contains st d))"
    by (rule process_detection_wf)
  with Cons.IH show ?case
    by (cases "process_detection contains st d") auto
qed

lemma try_body_wf: "wf st \<Longrightarrow> wf (state_of (try_body contains st b))"
  by (auto simp: try_body_def detection_loop_wf split: sum.splits)

lemma count_classes_wf: "wf st \<Longrightarrow> wf (state_of (count_classes st b))"
  by (auto simp: count_classes_def wf_def split: sum.splits)

lemma process_frame_wf:
  assumes "wf st"
  shows "wf (state_of (process_frame contains st res))"
proof -
  have "wf (state_of (try_body contains st1 b))" if "count_classes st b = Returned st1" for b st1
    using count_classes_wf [OF assms, of b] that by (simp add: try_body_wf)
  moreover have "wf st'" if "count_classes st b = Raised e st'" for b e st'
    using count_classes_wf [OF assms, of b] that by simp
  moreover have "wf st1" if "count_classes st b = Returned st1" for b st1
    using count_classes_wf [OF assms, of b] that by simp
  ultimately show ?thesis
    using assms
    by (auto simp: process_frame_def split: list.splits option.splits outcome.splits)
qed

lemma process_video_wf: "wf st \<Longrightarrow> wf (state_of (process_video contains st frames))"
proof (induction frames arbitrary: st)
  case Nil
  then show ?case by simp
next
  case (Cons res rest)
  from Cons.prems have "wf (state_of (process_frame contains st res))"
    by (rule process_frame_wf)
  with Cons.IH show ?case
    by (cases "process_frame contains st res") auto
qed

lemma count_split:
  "set vs \<subseteq> {1, 2::int} \<Longrightarrow>
     (\<Sum>r\<leftarrow>filter (\<lambda>r. r = 1) vs. 1) + (\<Sum>r\<leftarrow>filter (\<lambda>r. r = 2) vs. 1) = int (length vs)"
  by (induction vs) auto

lemma process_video_append:
  "process_video contains st (fs @ gs) =
     (case process_video contains st fs of
        Raised e st' \<Rightarrow> Raised e st'
      | Returned st' \<Rightarrow> process_video contains st' gs)"
  by (induction fs arbitrary: st) (auto split: outcome.splits)


lemma region_scan_missed:
  assumes "\<forall>p\<in>set ps. \<not> contains r1 p \<and> \<not> contains r2 p"
  shows "region_scan contains r1 r2 (ps @ qs) =
           (case region_scan contains r1 r2 qs of
              (in_r1, in_r2, tests) \<Rightarrow> (in_r1, in_r2, missed_tests ps @ tests))"
  using assms
  by (induction ps) (auto simp: missed_tests_def is_in_region_def split: prod.splits)

lemma region_scan_first_hit:
  assumes "\<forall>p\<in>set ps. \<not> contains r1 p \<and> \<not> contains r2 p"
    and "contains r1 cp \<or> contains r2 cp"
  shows "region_scan contains r1 r2 (ps @ cp # qs) =
           (contains r1 cp, \<not> contains r1 cp,
            missed_tests ps @ (if contains r1 cp then [(cp, 1)] else [(cp, 1), (cp, 2)]))"
  using assms by (auto simp: region_scan_missed is_in_region_def)

lemma register_id_fields:
  "object_region_assignments (register_id st y) = object_region_assignments st"
  "region_tests (register_id st y) = region_tests st"
  "region_polygon1 (register_id st y) = region_polygon1 st"
  "region_polygon2 (register_id st y) = region_polygon2 st"
  "class_counts (register_id st y) = class_counts st"
  by (simp_all add: register_id_def)

lemma register_id_seen:
  "map_of (yolo_id_to_custom_id st) y = Some u \<Longrightarrow> register_id st y = st"
  by (simp add: register_id_def)

lemma extends_custom_id:
  "extends st st' \<Longrightarrow> custom_id st y = Some u \<Longrightarrow> custom_id st' y = Some u"
  unfolding extends_def custom_id_def by (blast intro: map_of_prefix)

lemma later_state_extends:
  "extends st (state_of (process_video contains (state_of (detection_loop contains st ds)) frames))"
  using detection_loop_extends process_video_extends by (rule extends_trans)

lemma detection_loop_other_classes:
  "\<forall>d\<in>set ds. fst (snd d) \<noteq> 28 \<Longrightarrow> detection_loop contains st ds = Returned st"
  by (induction ds) (auto simp: process_detection_def)

lemma try_body_other_classes:
  assumes "\<forall>cs. cls b = Array cs \<longrightarrow> 28 \<notin> set cs"
  shows "state_of (try_body contains st b) = st"
proof (cases "\<exists>bxs cs ids. xyxy b = Array bxs \<and> cls b = Array cs \<and> boxes_id b = Array ids")
  case True
  then obtain bxs cs ids where f: "xyxy b = Array bxs" "cls b = Array cs" "boxes_id b = Array ids"
    by blast
  have "\<forall>d\<in>set (zip bxs (zip cs ids)). fst (snd d) \<noteq> 28"
  proof
    fix d assume d: "d \<in> set (zip bxs (zip cs ids))"
    obtain bx c i where "d = (bx, c, i)" by (cases d)
    with d have "(c, i) \<in> set (zip cs ids)" by (auto dest: set_zip_rightD)
    then have "c \<in> set cs" by (rule set_zip_leftD)
    with assms f(2) \<open>d = (bx, c, i)\<close> show "fst (snd d) \<noteq> 28" by auto
  qed
  then have "detection_loop contains st (zip bxs (zip cs ids)) = Returned st"
    by (rule detection_loop_other_classes)
  with f show ?thesis by (simp add: try_body_def to_int_array_def)
next
  case False
  then show ?thesis
    by (cases "xyxy b"; cases "cls b"; cases "boxes_id b")
       (simp_all add: try_body_def to_int_array_def)
qed

lemma run_enter: "process_video rect_contains (init region_a region_b) [frame_enter] = Returned after_enter"
  by (simp add: init_def region_a_def region_b_def frame_enter_def after_enter_def
      process_frame_def count_classes_def to_int_array_def bump_def try_body_def
      process_detection_def register_id_def custom_id_def check_points_box
      is_in_region_def assign_region_def)

lemma note_ids_append: "note_ids seen (xs @ ys) = note_ids (note_ids seen xs) ys"
  by (induction xs arbitrary: seen) simp_all

lemma register_id_keys:
  "map fst (yolo_id_to_custom_id (register_id st y)) =
     (if y \<in> set (map fst (yolo_id_to_custom_id st)) then map fst (yolo_id_to_custom_id st)
      else map fst (yolo_id_to_custom_id st) @ [y])"
  by (auto simp: register_id_def AList.update_keys map_of_eq_None_iff)

lemma process_detection_suitcase:
  assumes "length box = 4"
  shows "\<exists>s. process_detection contains st (box, 28, y) = Returned s \<and>
             yolo_id_to_custom_id s = yolo_id_to_custom_id (register_id st y)"
proof -
  from assms obtain x1 y1 x2 y2 where box: "box = [x1, y1, x2, y2]"
    by (auto simp: length_Suc_conv numeral_eq_Suc)
  obtain u where u: "custom_id (register_id st y) y = Some u"
    using register_id_custom_id by blast
  show ?thesis
    using u
    by (auto simp: box process_detection_def Let_def assign_region_def split: prod.splits)
qed

lemma process_detection_bad_box:
  "length box \<noteq> 4 \<Longrightarrow> process_detection contains st (box, 28, y) = Raised ValueError st"
  by (auto simp: process_detection_def split: list.splits)

lemma detection_loop_keys:
  "map fst (yolo_id_to_custom_id (state_of (detection_loop contains st ds))) =
     note_ids (map fst (yolo_id_to_custom_id st)) (resolved_in_loop ds)"
proof (induction ds arbitrary: st)
  case Nil
  show ?case by simp
next
  case (Cons d ds)
  obtain box cls_val y where d: "d = (box, cls_val, y)" by (cases d)
  show ?case
  proof (cases "cls_val = 28")
    case False
    then have "process_detection contains st d = Returned st"
      by (simp add: d process_detection_def)
    with False Cons show ?thesis by (simp add: d)
  next
    case True
    show ?thesis
    proof (cases "length box = 4")
      case False
      with True have "process_detection contains st d = Raised ValueError st"
        by (simp add: d process_detection_bad_box)
      with True False show ?thesis by (simp add: d)
    next
      case len: True
      then obtain s where s: "process_detection contains st (box, 28, y) = Returned s"
        "yolo_id_to_custom_id s = yolo_id_to_custom_id (register_id st y)"
        using process_detection_suitcase by blast
      with True len Cons [of s] show ?thesis
        by (simp add: d register_id_keys)
    qed
  qed
qed

lemma count_classes_registry:
  "yolo_id_to_custom_id (state_of (count_classes st b)) = yolo_id_to_custom_id st"
  by (auto simp: count_classes_def split: sum.splits)

lemma try_body_keys:
  "map fst (yolo_id_to_custom_id (state_of (try_body contains st b))) =
     note_ids (map fst (yolo_id_to_custom_id st))
       (case xyxy b of
          Array bxs \<Rightarrow>
            (case cls b of
               Array classes \<Rightarrow>
                 (case boxes_id b of
                    Array track_ids \<Rightarrow> resolved_in_loop (zip bxs (zip classes track_ids))
                  | _ \<Rightarrow> [])
             | _ \<Rightarrow> [])
        | _ \<Rightarrow> [])"
  by (cases "xyxy b"; cases "cls b"; cases "boxes_id b")
     (simp_all add: try_body_def to_int_array_def detection_loop_keys)

lemma process_frame_keys:
  "map fst (yolo_id_to_custom_id (state_of (process_frame contains st res))) =
     note_ids (map fst (yolo_id_to_custom_id st)) (resolved_in_frame res)"
proof (cases res)
  case Nil
  then show ?thesis by (simp add: process_frame_def resolved_in_frame_def)
next
  case (Cons r rs)
  show ?thesis
  proof (cases r)
    case None
    with Cons show ?thesis by (simp add: process_frame_def resolved_in_frame_def)
  next
    case (Some b)
    show ?thesis
    proof (cases "count_classes st b")
      case (Raised e s)
      then have "cls b = Malformed"
        by (cases "cls b") (auto simp: count_classes_def to_int_array_def)
      with Raised count_classes_registry [of st b] Cons Some show ?thesis
        by (simp add: process_frame_def resolved_in_frame_def split: field.splits)
    next
      case (Returned st1)
      with count_classes_registry [of st b]
      have reg: "yolo_id_to_custom_id st1 = yolo_id_to_custom_id st" by simp
      show ?thesis
      proof (cases "boxes_id b = Absent")
        case True
        with Returned reg Cons Some show ?thesis
          by (simp add: process_frame_def resolved_in_frame_def split: field.splits)
      next
        case False
        with Returned reg Cons Some try_body_keys [of contains st1 b] show ?thesis
          by (simp add: process_frame_def resolved_in_frame_def)
      qed
    qed
  qed
qed

lemma process_frame_raises:
  "(\<exists>s. process_frame contains st res = Returned s) \<longleftrightarrow> \<not> frame_aborts res"
proof (cases res)
  case Nil
  then show ?thesis by (simp add: process_frame_def frame_aborts_def)
next
  case (Cons r rs)
  show ?thesis
  proof (cases r)
    case None
    with Cons show ?thesis by (simp add: process_frame_def frame_aborts_def)
  next
    case (Some b)
    with Cons show ?thesis
      by (cases "cls b")
         (auto simp: process_frame_def frame_aborts_def count_classes_def to_int_array_def)
  qed
qed

lemma process_video_keys:
  "map fst (yolo_id_to_custom_id (state_of (process_video contains st frames))) =
     note_ids (map fst (yolo_id_to_custom_id st)) (resolved_in_run frames)"
proof (induction frames arbitrary: st)
  case Nil
  show ?case by simp
next
  case (Cons res rest)
  show ?case
  proof (cases "process_frame contains st res")
    case (Returned s)
    then have "\<not> frame_aborts res" using process_frame_raises by blast
    moreover from Returned process_frame_keys [of contains st res]
    have "map fst (yolo_id_to_custom_id s) =
        note_ids (map fst (yolo_id_to_custom_id st)) (resolved_in_frame res)" by simp
    ultimately show ?thesis
      using Returned Cons [of s] by (simp add: note_ids_append)
  next
    case (Raised e s)
    then have ab: "frame_aborts res" using process_frame_raises [of contains st res] by auto
    then have "resolved_in_frame res = []"
      by (auto simp: frame_aborts_def resolved_in_frame_def split: list.splits option.splits field.splits)
    with Raised ab process_frame_keys [of contains st res] show ?thesis by simp
  qed
qed

section \<open>Properties\<close>

subsection \<open>C1: an assignment is permanent\<close>

text \<open>
  C1. Take any state in which the stable id \<open>u\<close> has a region \<open>r\<close> recorded, and let the
  run go on over any list of frames, with any boxes, classes and tracker ids in them.
  In the state reached (at the end, or where an exception ended the run) \<open>u\<close> still has
  region \<open>r\<close>, and the membership tests made for \<open>u\<close> are exactly those made before:
  no test is carried out for \<open>u\<close> on any later frame.
\<close>

theorem assignment_permanent:
  assumes "map_of (object_region_assignments st) u = Some r"
  shows "map_of (object_region_assignments (state_of (process_video contains st frames))) u = Some r \<and>
         filter (\<lambda>t. fst t = u) (region_tests (state_of (process_video contains st frames))) =
         filter (\<lambda>t. fst t = u) (region_tests st)"
proof -
  have "extends st (state_of (process_video contains st frames))"
    by (rule process_video_extends)
  with assms show ?thesis
    unfolding extends_def by (auto intro: map_of_prefix)
qed

text \<open>The suitcase that entered region 1 is then seen twice inside region 2.\<close>

theorem assignment_permanent_witness:
  "map_of (object_region_assignments after_enter) 1 = Some 1 \<and>
   map_of (object_region_assignments
     (state_of (process_video rect_contains after_enter [frame_moved, frame_moved]))) 1 = Some 1 \<and>
   filter (\<lambda>t. fst t = 1)
     (region_tests (state_of (process_video rect_contains after_enter [frame_moved, frame_moved]))) =
   filter (\<lambda>t. fst t = 1) (region_tests after_enter)"
proof -
  have h: "map_of (object_region_assignments after_enter) 1 = Some 1"
    by (simp add: after_enter_def)
  from assignment_permanent [OF h, of rect_contains "[frame_moved, frame_moved]"] h
  show ?thesis by simp
qed

subsection \<open>C2: the first hit decides\<close>

text \<open>
  C2. A suitcase detection whose stable id \<open>u\<close> has no region yet. Split the candidate
  points at the first point \<open>cp\<close> that lies in one of the regions: the points \<open>ps\<close> before
  it lie in neither. Then both regions are tested for each point of \<open>ps\<close>, region 1
  before region 2, then region 1 for \<open>cp\<close> and, only when that fails, region 2 for \<open>cp\<close>;
  nothing is tested for the points \<open>qs\<close> after \<open>cp\<close>, wherever they lie. The region
  recorded for \<open>u\<close> is 1 when \<open>cp\<close> is in region 1 and 2 otherwise.
\<close>

theorem first_hit_decides:
  assumes "check_points x1 y1 x2 y2 = ps @ cp # qs"
    and "\<forall>p\<in>set ps. \<not> contains (region_polygon1 st) p \<and> \<not> contains (region_polygon2 st) p"
    and "contains (region_polygon1 st) cp \<or> contains (region_polygon2 st) cp"
    and "custom_id (register_id st yolo_id) yolo_id = Some u"
    and "map_of (object_region_assignments st) u = None"
  shows "process_detection contains st ([x1, y1, x2, y2], 28, yolo_id) =
           Returned ((register_id st yolo_id)
             \<lparr>object_region_assignments :=
                object_region_assignments st @
                  [(u, if contains (region_polygon1 st) cp then 1 else 2)],
              region_tests :=
                region_tests st @
                  map (\<lambda>(p, r). (u, p, r))
                    (missed_tests ps @
                      (if contains (region_polygon1 st) cp then [(cp, 1)]
                       else [(cp, 1), (cp, 2)]))\<rparr>)"
proof -
  let ?st1 = "register_id st yolo_id"
  have scan: "region_scan contains (region_polygon1 ?st1) (region_polygon2 ?st1)
                (check_points x1 y1 x2 y2) =
              (contains (region_polygon1 st) cp, \<not> contains (region_polygon1 st) cp,
               missed_tests ps @ (if contains (region_polygon1 st) cp then [(cp, 1)]
                                  else [(cp, 1), (cp, 2)]))"
    unfolding assms(1) register_id_fields
    using assms(2,3) by (rule region_scan_first_hit)
  have un: "map_of (object_region_assignments ?st1) u = None"
    using assms(5) by (simp add: register_id_fields)
  show ?thesis
    using assms(4) un scan
    by (simp add: process_detection_def Let_def assign_region_def update_fresh register_id_fields)
qed

text \<open>
  The bottom midpoint \<open>(150, 200)\<close> is the first point in a region, and that region is
  region 2; the left midpoint \<open>(100, 150)\<close>, which comes later, lies in region 1.
\<close>

theorem first_hit_decides_witness:
  "rect_contains region_c (100, 150) \<and>
   process_detection rect_contains (init region_c region_d) ([100, 100, 200, 200], 28, 7) =
     Returned \<lparr>region_polygon1 = region_c, region_polygon2 = region_d,
               yolo_id_to_custom_id = [(7, 1)], next_custom_id = 2,
               object_region_assignments = [(1, 2)], class_counts = [],
               region_tests = [(1, (200, 100), 1), (1, (200, 100), 2),
                               (1, (100, 200), 1), (1, (100, 200), 2),
                               (1, (200, 200), 1), (1, (200, 200), 2),
                               (1, (150, 200), 1), (1, (150, 200), 2)]\<rparr>"
  using first_hit_decides [of 100 100 200 200 "[(200, 100), (100, 200), (200, 200)]"
      "(150, 200)" "[(100, 150), (200, 150)]" rect_contains "init region_c region_d" 7 1]
  by (simp add: check_points_box init_def region_c_def region_d_def register_id_def
      custom_id_def missed_tests_def)

subsection \<open>C3: a point in both regions\<close>

text \<open>
  A candidate point that lies in both regions does not force region 1: \<open>(100, 200)\<close> is in
  both rectangles, but the point before it, \<open>(200, 100)\<close>, lies in the second rectangle
  only and ends the loop with region 2.
\<close>

theorem overlap_point_counterexample:
  "(100, 200) \<in> set (check_points 100 100 200 200) \<and>
   rect_contains region_e (100, 200) \<and> rect_contains region_f (100, 200) \<and>
   map_of (object_region_assignments (state_of
     (process_detection rect_contains (init region_e region_f) ([100, 100, 200, 200], 28, 7)))) 1
     = Some 2"
  by (simp add: check_points_box init_def region_e_def region_f_def process_detection_def
      register_id_def custom_id_def is_in_region_def assign_region_def)

text \<open>
  C3, amended. When a candidate point lies in both regions and no candidate point before
  it (in the fixed order) lies in either region, the region recorded for the stable id
  is region 1.
\<close>

theorem overlap_prefers_region1:
  assumes "check_points x1 y1 x2 y2 = ps @ cp # qs"
    and "\<forall>p\<in>set ps. \<not> contains (region_polygon1 st) p \<and> \<not> contains (region_polygon2 st) p"
    and "contains (region_polygon1 st) cp" and "contains (region_polygon2 st) cp"
    and "custom_id (register_id st yolo_id) yolo_id = Some u"
    and "map_of (object_region_assignments st) u = None"
  shows "map_of (object_region_assignments (state_of
           (process_detection contains st ([x1, y1, x2, y2], 28, yolo_id)))) u = Some 1"
proof -
  let ?st1 = "register_id st yolo_id"
  have "region_scan contains (region_polygon1 ?st1) (region_polygon2 ?st1)
          (check_points x1 y1 x2 y2) = (True, False, missed_tests ps @ [(cp, 1)])"
    unfolding assms(1) register_id_fields
    using region_scan_first_hit [of ps contains "region_polygon1 st" "region_polygon2 st" cp qs]
      assms(2,3) by simp
  moreover have "map_of (object_region_assignments ?st1) u = None"
    using assms(6) by (simp add: register_id_fields)
  ultimately show ?thesis
    using assms(5)
    by (simp add: process_detection_def Let_def assign_region_def AList.update_conv')
qed

text \<open>The bottom-right corner \<open>(200, 200)\<close> is the first hit and lies in both rectangles.\<close>

theorem overlap_prefers_region1_witness:
  "rect_contains region_g (200, 200) \<and> rect_contains region_h (200, 200) \<and>
   map_of (object_region_assignments (state_of
     (process_detection rect_contains (init region_g region_h) ([100, 100, 200, 200], 28, 7)))) 1
     = Some 1"
  using overlap_prefers_region1 [of 100 100 200 200 "[(200, 100), (100, 200)]"
      "(200, 200)" "[(150, 200), (100, 150), (200, 150)]" rect_contains
      "init region_g region_h" 7 1]
  by (simp add: check_points_box init_def region_g_def region_h_def register_id_def
      custom_id_def)

subsection \<open>C4: resolving a tracker id twice\<close>

text \<open>
  C4. After lines 145 to 147 have run for the tracker id \<open>y\<close>, the lookup of line 148
  finds a stable id. Whatever follows (the rest of the frame's detections \<open>ds\<close>, then any
  further frames), running lines 145 to 148 for \<open>y\<close> again finds the same stable id and
  leaves the counter as it is. The counter goes up by one exactly when \<open>y\<close> was not in
  the dictionary.
\<close>

theorem resolve_idempotent:
  "custom_id (register_id st y) y \<noteq> None \<and>
   custom_id (register_id
       (state_of (process_video contains
          (state_of (detection_loop contains (register_id st y) ds)) frames)) y) y =
     custom_id (register_id st y) y \<and>
   next_custom_id (register_id
       (state_of (process_video contains
          (state_of (detection_loop contains (register_id st y) ds)) frames)) y) =
     next_custom_id
       (state_of (process_video contains
          (state_of (detection_loop contains (register_id st y) ds)) frames)) \<and>
   next_custom_id (register_id st y) =
     (if map_of (yolo_id_to_custom_id st) y = None then next_custom_id st + 1
      else next_custom_id st)"
proof -
  let ?st1 = "register_id st y"
  let ?st2 = "state_of (process_video contains (state_of (detection_loop contains ?st1 ds)) frames)"
  obtain u where u: "custom_id ?st1 y = Some u"
    using register_id_custom_id by blast
  have "extends ?st1 ?st2" by (rule later_state_extends)
  then have u2: "custom_id ?st2 y = Some u" using u by (rule extends_custom_id)
  then have "register_id ?st2 y = ?st2"
    unfolding custom_id_def by (rule register_id_seen)
  with u u2 show ?thesis by (simp add: register_id_def)
qed

text \<open>Tracker id 7 is registered, then meets a frame with the tracker ids 7 and 9.\<close>

theorem resolve_idempotent_witness:
  "custom_id (register_id (init region_a region_b) 7) 7 = Some 1 \<and>
   custom_id (register_id
       (state_of (process_video rect_contains
          (state_of (detection_loop rect_contains (register_id (init region_a region_b) 7) []))
          [frame_two])) 7) 7 = Some 1"
  using resolve_idempotent [of "init region_a region_b" 7 rect_contains "[]" "[frame_two]"]
  by (simp add: init_def register_id_def custom_id_def)

subsection \<open>C5: stable ids are issued as 1, 2, 3, ...\<close>

text \<open>
  C5. Run any list of frames from the initial state, and list the distinct tracker ids
  that reach the identity mapping in the order in which they are first seen. In the
  state reached, \<open>yolo_id_to_custom_id\<close> pairs the first of them with 1, the second with
  2, and so on, and holds nothing else; \<open>next_custom_id\<close> is their number plus one. So the
  stable ids issued are \<open>1, 2, 3, ...\<close> without a gap, one for each distinct tracker id
  in the order of first sight. A longer run only adds entries at the end, so an id once
  issued is never issued again.
\<close>

theorem issuance_consecutive:
  "yolo_id_to_custom_id (state_of (process_video contains (init r1 r2) frames)) =
     zip (first_seen (resolved_in_run frames))
         [1..int (length (first_seen (resolved_in_run frames)))] \<and>
   next_custom_id (state_of (process_video contains (init r1 r2) frames)) =
     int (length (first_seen (resolved_in_run frames))) + 1 \<and>
   distinct (first_seen (resolved_in_run frames)) \<and>
   map snd (yolo_id_to_custom_id (state_of (process_video contains (init r1 r2) frames))) =
     [1..next_custom_id (state_of (process_video contains (init r1 r2) frames)) - 1] \<and>
   distinct (map fst (yolo_id_to_custom_id (state_of (process_video contains (init r1 r2) frames)))) \<and>
   prefix (yolo_id_to_custom_id (state_of (process_video contains (init r1 r2) frames)))
     (yolo_id_to_custom_id (state_of (process_video contains (init r1 r2) (frames @ later))))"
proof -
  let ?st = "state_of (process_video contains (init r1 r2) frames)"
  let ?ids = "first_seen (resolved_in_run frames)"
  have wf: "wf ?st" using wf_init by (rule process_video_wf)
  have keys: "map fst (yolo_id_to_custom_id ?st) = ?ids"
    using process_video_keys [of contains "init r1 r2" frames]
    by (simp add: first_seen_def init_def)
  from wf have vals: "map snd (yolo_id_to_custom_id ?st) = [1..next_custom_id ?st - 1]"
    and pos: "1 \<le> next_custom_id ?st"
    and dist: "distinct (map fst (yolo_id_to_custom_id ?st))"
    by (simp_all add: wf_def)
  have "length (map snd (yolo_id_to_custom_id ?st)) = length (map fst (yolo_id_to_custom_id ?st))"
    by simp
  with vals keys pos have nxt: "next_custom_id ?st = int (length ?ids) + 1"
    by simp
  have "yolo_id_to_custom_id ?st =
      zip (map fst (yolo_id_to_custom_id ?st)) (map snd (yolo_id_to_custom_id ?st))"
    by (simp add: zip_map_fst_snd)
  with keys vals nxt have dict: "yolo_id_to_custom_id ?st = zip ?ids [1..int (length ?ids)]"
    by simp
  have "extends ?st (state_of (process_video contains (init r1 r2) (frames @ later)))"
    using process_video_extends [of ?st contains later]
    by (cases "process_video contains (init r1 r2) frames")
       (simp_all add: process_video_append extends_refl)
  then have "prefix (yolo_id_to_custom_id ?st)
      (yolo_id_to_custom_id (state_of (process_video contains (init r1 r2) (frames @ later))))"
    by (simp add: extends_def)
  with dict nxt vals dist keys show ?thesis by simp
qed

text \<open>Tracker id 7 comes first, then 9 (the class-0 detection with tracker id 5 between
  them is not a suitcase), then 7 and 9 again.\<close>

theorem issuance_consecutive_witness:
  "resolved_in_run [frame_enter, frame_three, frame_two] = [7, 9, 7, 7, 9] \<and>
   yolo_id_to_custom_id (state_of (process_video rect_contains (init region_a region_b)
       [frame_enter, frame_three, frame_two])) = [(7, 1), (9, 2)] \<and>
   next_custom_id (state_of (process_video rect_contains (init region_a region_b)
       [frame_enter, frame_three, frame_two])) = 3"
proof -
  have ids: "resolved_in_run [frame_enter, frame_three, frame_two] = [7, 9, 7, 7, 9]"
    by (simp add: frame_enter_def frame_three_def frame_two_def frame_aborts_def
        resolved_in_frame_def)
  have "[1..2] = [1, 2::int]"
    by (simp add: upto_rec1)
  with issuance_consecutive [of rect_contains region_a region_b
      "[frame_enter, frame_three, frame_two]" "[]"] ids
  show ?thesis by (simp add: first_seen_def)
qed

subsection \<open>C6: the counts agree\<close>

text \<open>
  C6. In every state reached by a run from the initial state, the count for region 1 plus
  the count for region 2 is the total shown, and the total is the number of entries of
  \<open>object_region_assignments\<close>, that is, the number of stable ids with a region.
\<close>

theorem counts_consistent:
  "region1_count (state_of (process_video contains (init r1 r2) frames)) +
   region2_count (state_of (process_video contains (init r1 r2) frames)) =
     total_count (state_of (process_video contains (init r1 r2) frames)) \<and>
   total_count (state_of (process_video contains (init r1 r2) frames)) =
     int (length (object_region_assignments (state_of (process_video contains (init r1 r2) frames)))) \<and>
   total_count (state_of (process_video contains (init r1 r2) frames)) =
     int (card (dom (map_of (object_region_assignments
            (state_of (process_video contains (init r1 r2) frames))))))"
proof -
  let ?st = "state_of (process_video contains (init r1 r2) frames)"
  have wf: "wf ?st" using wf_init by (rule process_video_wf)
  then have "total_count ?st = int (length (object_region_assignments ?st))"
    using count_split [of "map snd (object_region_assignments ?st)"]
    by (simp add: wf_def total_count_def region1_count_def region2_count_def)
  moreover have "card (dom (map_of (object_region_assignments ?st))) =
      length (object_region_assignments ?st)"
    using wf distinct_card [of "map fst (object_region_assignments ?st)"]
    by (simp add: wf_def dom_map_of_conv_image_fst)
  ultimately show ?thesis by (simp add: total_count_def)
qed

subsection \<open>C7: the six candidate points\<close>

text \<open>
  C7. Take a suitcase detection with box \<open>(x1,y1)-(x2,y2)\<close> whose stable id \<open>u\<close> has no
  region yet, the sums \<open>x1 + x2\<close> and \<open>y1 + y2\<close> being below \<open>2 ^ 53\<close> in absolute value (as
  for every box in the pixel coordinates of a frame). Its candidate points are the
  top-right corner \<open>(x2,y1)\<close>, the bottom-left corner \<open>(x1,y2)\<close>, the bottom-right corner
  \<open>(x2,y2)\<close>, the bottom midpoint \<open>((x1+x2)/2, y2)\<close>, the left midpoint \<open>(x1, (y1+y2)/2)\<close>
  and the right midpoint \<open>(x2, (y1+y2)/2)\<close>, in this order. The detection is decided by
  the loop of lines 191 to 197 run over exactly this list; when none of the six lies
  in a region, each of the six is tested against region 1 and then region 2, in this
  order, and nothing is recorded for \<open>u\<close>. For the box \<open>(100,100)-(200,200)\<close> the points
  are \<open>(200,100), (100,200), (200,200), (150,200), (100,150), (200,150)\<close>; if region 1
  covers the square from 150 to 250 in both coordinates (the membership test holds
  inside it and fails outside it; its border may go either way) and no candidate point
  is in region 2, a first detection of the box tests \<open>(200,100)\<close> and \<open>(100,200)\<close>
  against both regions without success, finds \<open>(200,200)\<close> in region 1, and records
  region 1 for stable id 1.
\<close>

theorem six_candidate_points:
  assumes "\<bar>x1 + x2\<bar> < 2 ^ 53" and "\<bar>y1 + y2\<bar> < 2 ^ 53"
    and "custom_id (register_id st yolo_id) yolo_id = Some u"
    and "map_of (object_region_assignments st) u = None"
  shows "check_points x1 y1 x2 y2 =
           [(of_int x2, of_int y1), (of_int x1, of_int y2), (of_int x2, of_int y2),
            (of_int (x1 + x2) / 2, of_int y2), (of_int x1, of_int (y1 + y2) / 2),
            (of_int x2, of_int (y1 + y2) / 2)] \<and>
         (case region_scan contains (region_polygon1 st) (region_polygon2 st)
                 [(of_int x2, of_int y1), (of_int x1, of_int y2), (of_int x2, of_int y2),
                  (of_int (x1 + x2) / 2, of_int y2), (of_int x1, of_int (y1 + y2) / 2),
                  (of_int x2, of_int (y1 + y2) / 2)] of
            (in_r1, in_r2, tests) \<Rightarrow>
              process_detection contains st ([x1, y1, x2, y2], 28, yolo_id) =
                Returned (assign_region (register_id st yolo_id) u tests in_r1 in_r2)) \<and>
         ((\<forall>p\<in>set [(of_int x2, of_int y1), (of_int x1, of_int y2), (of_int x2, of_int y2),
                    (of_int (x1 + x2) / 2, of_int y2), (of_int x1, of_int (y1 + y2) / 2),
                    (of_int x2, of_int (y1 + y2) / 2)].
              \<not> contains (region_polygon1 st) p \<and> \<not> contains (region_polygon2 st) p) \<longrightarrow>
          process_detection contains st ([x1, y1, x2, y2], 28, yolo_id) =
            Returned ((register_id st yolo_id)
              \<lparr>region_tests := region_tests st @
                 [(u, (of_int x2, of_int y1), 1), (u, (of_int x2, of_int y1), 2),
                  (u, (of_int x1, of_int y2), 1), (u, (of_int x1, of_int y2), 2),
                  (u, (of_int x2, of_int y2), 1), (u, (of_int x2, of_int y2), 2),
                  (u, (of_int (x1 + x2) / 2, of_int y2), 1),
                  (u, (of_int (x1 + x2) / 2, of_int y2), 2),
                  (u, (of_int x1, of_int (y1 + y2) / 2), 1),
                  (u, (of_int x1, of_int (y1 + y2) / 2), 2),
                  (u, (of_int x2, of_int (y1 + y2) / 2), 1),
                  (u, (of_int x2, of_int (y1 + y2) / 2), 2)]\<rparr>)) \<and>
         ((\<forall>p. 150 < fst p \<and> fst p < 250 \<and> 150 < snd p \<and> snd p < 250 \<longrightarrow> contains r1 p) \<and>
          (\<forall>p. contains r1 p \<longrightarrow> 150 \<le> fst p \<and> fst p \<le> 250 \<and> 150 \<le> snd p \<and> snd p \<le> 250) \<and>
          (\<forall>p\<in>set (check_points 100 100 200 200). \<not> contains r2 p) \<longrightarrow>
          check_points 100 100 200 200 =
            [(200, 100), (100, 200), (200, 200), (150, 200), (100, 150), (200, 150)] \<and>
          process_detection contains (init r1 r2) ([100, 100, 200, 200], 28, tracker_id) =
            Returned \<lparr>region_polygon1 = r1, region_polygon2 = r2,
                      yolo_id_to_custom_id = [(tracker_id, 1)], next_custom_id = 2,
                      object_region_assignments = [(1, 1)], class_counts = [],
                      region_tests = [(1, (200, 100), 1), (1, (200, 100), 2),
                                      (1, (100, 200), 1), (1, (100, 200), 2),
                                      (1, (200, 200), 1)]\<rparr>)"
proof -
  let ?six = "[(of_int x2, of_int y1), (of_int x1, of_int y2), (of_int x2, of_int y2),
               (of_int (x1 + x2) / 2, of_int y2), (of_int x1, of_int (y1 + y2) / 2),
               (of_int x2, of_int (y1 + y2) / 2)] :: point list"
  let ?st1 = "register_id st yolo_id"
  have pts: "check_points x1 y1 x2 y2 = ?six"
    using assms(1,2) by (rule check_points_exact)
  have un: "map_of (object_region_assignments ?st1) u = None"
    using assms(4) by (simp add: register_id_fields)
  have general: "process_detection contains st ([x1, y1, x2, y2], 28, yolo_id) =
      (case region_scan contains (region_polygon1 st) (region_polygon2 st) ?six of
         (in_r1, in_r2, tests) \<Rightarrow>
           Returned (assign_region ?st1 u tests in_r1 in_r2))"
    using assms(3) un
    by (simp add: process_detection_def Let_def pts register_id_fields)
  have miss: "process_detection contains st ([x1, y1, x2, y2], 28, yolo_id) =
      Returned (?st1\<lparr>region_tests := region_tests st @
                 [(u, (of_int x2, of_int y1), 1), (u, (of_int x2, of_int y1), 2),
                  (u, (of_int x1, of_int y2), 1), (u, (of_int x1, of_int y2), 2),
                  (u, (of_int x2, of_int y2), 1), (u, (of_int x2, of_int y2), 2),
                  (u, (of_int (x1 + x2) / 2, of_int y2), 1),
                  (u, (of_int (x1 + x2) / 2, of_int y2), 2),
                  (u, (of_int x1, of_int (y1 + y2) / 2), 1),
                  (u, (of_int x1, of_int (y1 + y2) / 2), 2),
                  (u, (of_int x2, of_int (y1 + y2) / 2), 1),
                  (u, (of_int x2, of_int (y1 + y2) / 2), 2)]\<rparr>)"
    if "\<forall>p\<in>set ?six. \<not> contains (region_polygon1 st) p \<and> \<not> contains (region_polygon2 st) p"
    unfolding general using that
    by (simp add: is_in_region_def assign_region_def register_id_fields)
  have scenario: "check_points 100 100 200 200 =
            [(200, 100), (100, 200), (200, 200), (150, 200), (100, 150), (200, 150)] \<and>
          process_detection contains (init r1 r2) ([100, 100, 200, 200], 28, tracker_id) =
            Returned \<lparr>region_polygon1 = r1, region_polygon2 = r2,
                      yolo_id_to_custom_id = [(tracker_id, 1)], next_custom_id = 2,
                      object_region_assignments = [(1, 1)], class_counts = [],
                      region_tests = [(1, (200, 100), 1), (1, (200, 100), 2),
                                      (1, (100, 200), 1), (1, (100, 200), 2),
                                      (1, (200, 200), 1)]\<rparr>"
    if inside: "\<forall>p. 150 < fst p \<and> fst p < 250 \<and> 150 < snd p \<and> snd p < 250 \<longrightarrow> contains r1 p"
      and outside: "\<forall>p. contains r1 p \<longrightarrow> 150 \<le> fst p \<and> fst p \<le> 250 \<and> 150 \<le> snd p \<and> snd p \<le> 250"
      and r2: "\<forall>p\<in>set (check_points 100 100 200 200). \<not> contains r2 p"
  proof -
    have a: "\<not> contains r1 (200, 100)" "\<not> contains r1 (100, 200)"
      using outside by fastforce+
    have b: "\<not> contains r2 (200, 100)" "\<not> contains r2 (100, 200)"
      using r2 unfolding check_points_box by simp_all
    have c: "contains r1 (200, 200)"
      using inside by simp
    show ?thesis
      using a b c
      by (simp add: process_detection_def init_def register_id_def custom_id_def
          check_points_box is_in_region_def assign_region_def)
  qed
  have "case region_scan contains (region_polygon1 st) (region_polygon2 st) ?six of
          (in_r1, in_r2, tests) \<Rightarrow>
            process_detection contains st ([x1, y1, x2, y2], 28, yolo_id) =
              Returned (assign_region ?st1 u tests in_r1 in_r2)"
    unfolding general by (simp split: prod.splits)
  with pts miss scenario show ?thesis by blast
qed

text \<open>
  A box in the corner of the frame, away from both rectangles: all six points are tested
  against both regions. Then the scenario with the two rectangles of the examples.
\<close>

theorem six_candidate_points_witness:
  "process_detection rect_contains (init region_a region_b) ([0, 0, 10, 20], 28, 9) =
     Returned \<lparr>region_polygon1 = region_a, region_polygon2 = region_b,
               yolo_id_to_custom_id = [(9, 1)], next_custom_id = 2,
               object_region_assignments = [], class_counts = [],
               region_tests = [(1, (10, 0), 1), (1, (10, 0), 2),
                               (1, (0, 20), 1), (1, (0, 20), 2),
                               (1, (10, 20), 1), (1, (10, 20), 2),
                               (1, (5, 20), 1), (1, (5, 20), 2),
                               (1, (0, 10), 1), (1, (0, 10), 2),
                               (1, (10, 10), 1), (1, (10, 10), 2)]\<rparr> \<and>
   process_detection rect_contains (init region_a region_b) ([100, 100, 200, 200], 28, 7) =
     Returned \<lparr>region_polygon1 = region_a, region_polygon2 = region_b,
               yolo_id_to_custom_id = [(7, 1)], next_custom_id = 2,
               object_region_assignments = [(1, 1)], class_counts = [],
               region_tests = [(1, (200, 100), 1), (1, (200, 100), 2),
                               (1, (100, 200), 1), (1, (100, 200), 2),
                               (1, (200, 200), 1)]\<rparr>"
proof -
  have 1: "\<forall>p. 150 < fst p \<and> fst p < 250 \<and> 150 < snd p \<and> snd p < 250 \<longrightarrow> rect_contains region_a p"
    by (auto simp: region_a_def)
  have 2: "\<forall>p. rect_contains region_a p \<longrightarrow> 150 \<le> fst p \<and> fst p \<le> 250 \<and> 150 \<le> snd p \<and> snd p \<le> 250"
    by (auto simp: region_a_def)
  have 3: "\<forall>p\<in>set (check_points 100 100 200 200). \<not> rect_contains region_b p"
    by (simp add: check_points_box region_b_def)
  have 4: "custom_id (register_id (init region_a region_b) 9) 9 = Some 1"
    "map_of (object_region_assignments (init region_a region_b)) 1 = None"
    by (simp_all add: init_def register_id_def custom_id_def)
  have 5: "\<bar>0 + 10\<bar> < (2::int) ^ 53" "\<bar>0 + 20\<bar> < (2::int) ^ 53"
    by simp_all
  from six_candidate_points [OF 5 4, of rect_contains region_a region_b 7] 1 2 3
  show ?thesis
    by (simp add: init_def register_id_def region_a_def region_b_def)
qed

subsection \<open>C8: other classes are ignored\<close>

text \<open>
  C8. A detection whose class is not 28 leaves the whole state as it is, whatever its
  box and tracker id. A frame whose class array does not contain 28 leaves
  \<open>yolo_id_to_custom_id\<close>, \<open>next_custom_id\<close>, \<open>object_region_assignments\<close> and the record
  of membership tests unchanged (only the class statistics change).
\<close>

theorem other_classes_ignored:
  "(cls_val \<noteq> 28 \<longrightarrow> process_detection contains st (box, cls_val, yolo_id) = Returned st) \<and>
   ((\<forall>cs. cls b = Array cs \<longrightarrow> 28 \<notin> set cs) \<longrightarrow>
      yolo_id_to_custom_id (state_of (process_frame contains st (Some b # rs))) =
        yolo_id_to_custom_id st \<and>
      next_custom_id (state_of (process_frame contains st (Some b # rs))) = next_custom_id st \<and>
      object_region_assignments (state_of (process_frame contains st (Some b # rs))) =
        object_region_assignments st \<and>
      region_tests (state_of (process_frame contains st (Some b # rs))) = region_tests st)"
proof -
  let ?st' = "state_of (process_frame contains st (Some b # rs))"
  have same: "yolo_id_to_custom_id (state_of (count_classes st b)) = yolo_id_to_custom_id st \<and>
      next_custom_id (state_of (count_classes st b)) = next_custom_id st \<and>
      object_region_assignments (state_of (count_classes st b)) = object_region_assignments st \<and>
      region_tests (state_of (count_classes st b)) = region_tests st"
    by (auto simp: count_classes_def split: sum.splits)
  have "?st' = st \<or> ?st' = state_of (count_classes st b)"
    if "\<forall>cs. cls b = Array cs \<longrightarrow> 28 \<notin> set cs"
    by (cases "count_classes st b")
       (simp_all add: process_frame_def try_body_other_classes [OF that])
  with same show ?thesis by (auto simp: process_detection_def)
qed

text \<open>A frame with a person (class 0) and a backpack (class 24).\<close>

theorem other_classes_ignored_witness:
  "process_detection rect_contains after_enter ([160, 160, 240, 240], 24, 4) = Returned after_enter \<and>
   yolo_id_to_custom_id (state_of (process_frame rect_contains after_enter [Some frame_other])) =
     [(7, 1)] \<and>
   next_custom_id (state_of (process_frame rect_contains after_enter [Some frame_other])) = 2 \<and>
   object_region_assignments (state_of (process_frame rect_contains after_enter [Some frame_other])) =
     [(1, 1)]"
proof -
  have "\<forall>cs. cls frame_other = Array cs \<longrightarrow> 28 \<notin> set cs"
    by (simp add: frame_other_def)
  with other_classes_ignored [of 24 rect_contains after_enter "[160, 160, 240, 240]" 4 frame_other "[]"]
  show ?thesis by (simp add: after_enter_def)
qed

subsection \<open>C9: exceptions within a frame\<close>

text \<open>
  C9 says that an exception raised while a frame's tracker output is interpreted is
  caught, so that the run goes on with the next frame. The code does not do so for the
  class statistics of lines 123 to 126: they convert the class attribute with the same
  \<open>.cpu().numpy().astype(int)\<close> as line 136, but before the \<open>try\<close> begins. In the run
  below the suitcase has entered region 1, and the next frame carries a class attribute
  that is present but cannot be converted. The conversion of line 124 raises, the
  exception leaves \<open>process_frame\<close> and \<open>process_video\<close>, which have no handler for it, and
  the frame after it is not processed.
\<close>

theorem class_statistics_abort:
  "process_video rect_contains after_enter [frame_bad_cls, frame_moved] =
     Raised ConversionError after_enter"
  by (simp add: frame_bad_cls_def process_frame_def count_classes_def to_int_array_def)

text \<open>
  What the \<open>try\<close> of \<open>process_frame\<close> does catch: an exception raised inside it
  (converting the boxes, the classes or the tracker ids at lines 135 to 137, or in the
  loop over the detections), once the class statistics before it have passed. Then
  \<open>process_frame\<close> returns normally with the state as it was when the exception was
  raised, the run goes on with the next frame from that state, and every entry that
  \<open>yolo_id_to_custom_id\<close> and \<open>object_region_assignments\<close> had before the frame is still
  there.
\<close>

theorem try_exceptions_caught:
  assumes "0 < boxes_len b" and "boxes_id b \<noteq> Absent" and "cls b \<noteq> Malformed"
    and "try_body contains (state_of (count_classes st b)) b = Raised e st2"
  shows "process_frame contains st (Some b # rs) = Returned st2 \<and>
         process_video contains st ((Some b # rs) # rest) = process_video contains st2 rest \<and>
         prefix (yolo_id_to_custom_id st) (yolo_id_to_custom_id st2) \<and>
         next_custom_id st \<le> next_custom_id st2 \<and>
         prefix (object_region_assignments st) (object_region_assignments st2)"
proof -
  obtain st1 where st1: "count_classes st b = Returned st1"
    using assms(3) by (cases "cls b") (auto simp: count_classes_def to_int_array_def)
  with assms have frame: "process_frame contains st (Some b # rs) = Returned st2"
    by (simp add: process_frame_def)
  have "extends st (state_of (process_frame contains st (Some b # rs)))"
    by (rule process_frame_extends)
  with frame show ?thesis by (simp add: extends_def)
qed

text \<open>
  The second detection of the frame has a box of three numbers; the first detection has
  already been given stable id 1 and region 1 when the unpacking raises.
\<close>

theorem try_exceptions_caught_witness:
  "try_body rect_contains (state_of (count_classes (init region_a region_b) frame_bad_box))
     frame_bad_box = Raised ValueError after_bad_box \<and>
   process_frame rect_contains (init region_a region_b) [Some frame_bad_box] = Returned after_bad_box \<and>
   process_video rect_contains (init region_a region_b) [[Some frame_bad_box], frame_moved] =
     process_video rect_contains after_bad_box [frame_moved]"
proof -
  have t: "try_body rect_contains (state_of (count_classes (init region_a region_b) frame_bad_box))
     frame_bad_box = Raised ValueError after_bad_box"
    by (simp add: frame_bad_box_def after_bad_box_def init_def region_a_def region_b_def
        count_classes_def to_int_array_def bump_def try_body_def process_detection_def
        register_id_def custom_id_def check_points_box is_in_region_def assign_region_def)
  have "0 < boxes_len frame_bad_box" "boxes_id frame_bad_box \<noteq> Absent"
    "cls frame_bad_box \<noteq> Malformed"
    by (simp_all add: frame_bad_box_def)
  from try_exceptions_caught [OF this t, of "[]" "[frame_moved]"] t show ?thesis by simp
qed


end
